theory Spec2Isabelle
  imports Complex_Main "HOL-Library.Word" "HOL-Library.Sublist"
begin

unbundle bit_operations_syntax

section \<open>The move relay of server.js\<close>

text \<open>
  The repository is one Express handler, \<^verbatim>\<open>POST /ai-move\<close>: it checks the request,
  builds a prompt, calls the chat completion endpoint once, and looks for a move token in
  the reply with a regular expression. This theory embeds the handler as a function from
  the request body and the behaviour of the upstream endpoint to the response written and
  the list of outbound calls made. Console output is not modelled.
\<close>

subsection \<open>Strings and JSON values\<close>

text \<open>
  A JavaScript string is a sequence of 16-bit code units. \<open>ascii\<close> writes a string
  literal of the source, all of which are ASCII.
\<close>

type_synonym code_unit = "16 word"
type_synonym jsstring = "code_unit list"

definition ascii :: "string \<Rightarrow> jsstring" where
  "ascii cs = map of_char cs"

text \<open>
  The values \<^verbatim>\<open>JSON.parse\<close> produces, and \<^verbatim>\<open>undefined\<close> for a property that is
  not there. A number is the value of its double; the handler only ever tests a number
  for being zero, so an overflowing literal (an infinity) behaves as any non-zero number.
  An object is the list of its own properties; \<open>map_of\<close> reads the first entry of a key.
\<close>

datatype jsval =
    JUndefined
  | JNull
  | JBool bool
  | JNum rat
  | JStr jsstring
  | JArr "jsval list"
  | JObj "(jsstring \<times> jsval) list"

text \<open>\<^verbatim>\<open>ToBoolean\<close>, which \<^verbatim>\<open>!x\<close> and \<^verbatim>\<open>x && y\<close> apply to their left operand.\<close>

fun truthy :: "jsval \<Rightarrow> bool" where
  "truthy JUndefined = False"
| "truthy JNull = False"
| "truthy (JBool b) = b"
| "truthy (JNum n) = (n \<noteq> 0)"
| "truthy (JStr s) = (s \<noteq> [])"
| "truthy (JArr xs) = True"
| "truthy (JObj kvs) = True"

text \<open>
  What the handler can throw or be rejected with: a \<^verbatim>\<open>TypeError\<close> of the engine (its
  message is the engine's), or the rejection of \<^verbatim>\<open>fetch\<close>, \<^verbatim>\<open>r.text()\<close> or
  \<^verbatim>\<open>r.json()\<close>, with the message the runtime gives it.
\<close>

datatype error = TypeError | Rejected jsstring

subsection \<open>Request, response and the upstream endpoint\<close>

text \<open>
  The body \<^verbatim>\<open>express.json()\<close> parsed. \<open>fen\<close> is any value (\<open>JUndefined\<close> when the
  field is missing): the handler only tests it. \<open>history\<close> is typed as the interface
  documents it, an array of \<^verbatim>\<open>{from, to}\<close> pairs of strings, with two more cases for
  what the handler does not check: \<open>Absent\<close> (the field is missing or null) and
  \<open>NotArray\<close> (a boolean, number, string or object parsed from JSON, none of which has
  a callable \<^verbatim>\<open>map\<close>).
\<close>

record move =
  from_sq :: jsstring
  to_sq :: jsstring

datatype history_field = Absent | NotArray | Moves "move list"

record request_body =
  fen :: jsval
  history :: history_field

text \<open>
  \<^verbatim>\<open>res.status(n).send(text)\<close>, \<^verbatim>\<open>res.status(500).send(err.message)\<close> and
  \<^verbatim>\<open>res.json(object)\<close> (status 200).
\<close>

datatype sent = Send jsstring | SendMessage error | Json "(jsstring \<times> jsval) list"

record response =
  status :: nat
  sent :: sent

text \<open>The process configuration read from the environment.\<close>

record config =
  OPENAI_KEY :: "jsstring option"
  GPT_MODEL :: "jsstring option"

text \<open>
  The outbound call (the object \<^verbatim>\<open>body\<close> of the source and the authorization header),
  and what came back: \<^verbatim>\<open>r.ok\<close>, \<^verbatim>\<open>r.status\<close> (written to the console only),
  \<^verbatim>\<open>r.statusText\<close> (never read by the handler), and the results of \<^verbatim>\<open>r.text()\<close>
  and \<^verbatim>\<open>r.json()\<close>.
  The upstream endpoint is a function from the call to the outcome of \<^verbatim>\<open>await fetch\<close>.
\<close>

record chat_request =
  model :: jsstring
  messages :: "(jsstring \<times> jsstring) list"
  authorization :: jsstring

record fetch_response =
  r_ok :: bool
  r_status :: nat
  r_statusText :: jsstring
  r_text :: "error + jsstring"
  r_json :: "error + jsval"

type_synonym upstream = "chat_request \<Rightarrow> error + fetch_response"

subsection \<open>The prompt\<close>

definition digit :: "nat \<Rightarrow> code_unit" where
  "digit d = 0x30 + of_nat d"

text \<open>\<^verbatim>\<open>${i+1}\<close>: the decimal digits of a positive array index.\<close>

function decimal :: "nat \<Rightarrow> jsstring" where
  "decimal n = (if n < 10 then [digit n] else decimal (n div 10) @ [digit (n mod 10)])"
  by pat_completeness auto
termination
  by (relation "measure id") auto

declare decimal.simps [simp del]

definition hex_digit :: "code_unit \<Rightarrow> code_unit" where
  "hex_digit d = (if d < 10 then 0x30 + d else 0x57 + d)"

definition unicode_escape :: "code_unit \<Rightarrow> jsstring" where
  "unicode_escape c =
     [0x5C, 0x75, hex_digit (drop_bit 12 c), hex_digit (take_bit 4 (drop_bit 8 c)),
      hex_digit (take_bit 4 (drop_bit 4 c)), hex_digit (take_bit 4 c)]"

definition is_lead :: "code_unit \<Rightarrow> bool" where
  "is_lead c = (0xD800 \<le> c \<and> c \<le> 0xDBFF)"

definition is_trail :: "code_unit \<Rightarrow> bool" where
  "is_trail c = (0xDC00 \<le> c \<and> c \<le> 0xDFFF)"

text \<open>
  One code unit that is not part of a surrogate pair, as \<^verbatim>\<open>QuoteJSONString\<close> writes
  it: the short escapes, \<^verbatim>\<open>\uXXXX\<close> for the other control characters and for a
  lone surrogate, and the code unit itself otherwise.
\<close>

definition quote_unit :: "code_unit \<Rightarrow> jsstring" where
  "quote_unit c =
     (if c = 0x08 then [0x5C, 0x62]
      else if c = 0x09 then [0x5C, 0x74]
      else if c = 0x0A then [0x5C, 0x6E]
      else if c = 0x0C then [0x5C, 0x66]
      else if c = 0x0D then [0x5C, 0x72]
      else if c = 0x22 then [0x5C, 0x22]
      else if c = 0x5C then [0x5C, 0x5C]
      else if c < 0x20 \<or> is_lead c \<or> is_trail c then unicode_escape c
      else [c])"

fun quote_units :: "jsstring \<Rightarrow> jsstring" where
  "quote_units [] = []"
| "quote_units [c] = quote_unit c"
| "quote_units (c # d # cs) =
     (if is_lead c \<and> is_trail d then c # d # quote_units cs
      else quote_unit c @ quote_units (d # cs))"

definition quote :: "jsstring \<Rightarrow> jsstring" where
  "quote s = [0x22] @ quote_units s @ [0x22]"

fun join :: "jsstring \<Rightarrow> jsstring list \<Rightarrow> jsstring" where
  "join sep [] = []"
| "join sep [x] = x"
| "join sep (x # y # ys) = x @ sep @ join sep (y # ys)"

text \<open>\<^verbatim>\<open>JSON.stringify\<close> of an array of strings, without indentation.\<close>

definition JSON_stringify :: "jsstring list \<Rightarrow> jsstring" where
  "JSON_stringify xs = [0x5B] @ join [0x2C] (map quote xs) @ [0x5D]"

definition system :: jsstring where
  "system = ascii (''You are a chess move generator. You MUST respond with exactly one move in UCI format ''
     @ ''(e.g. e2e4, g1f3, e7e8q for promotion) and nothing else. Do NOT include commentary, ''
     @ ''explanation, JSON, or any extra text. If you cannot find a legal move, respond with PASS. ''
     @ ''Use standard algebraic coordinates: a1..h8. Assume position FEN provided is to move. ''
     @ ''Use reasonable chess knowledge but do not invent illegal moves. Avoid castling if unclear.'')"

text \<open>The callback of \<^verbatim>\<open>history.map\<close>: \<^verbatim>\<open>`${i+1}. ${from}-${to}`\<close>.\<close>

definition entry :: "nat \<Rightarrow> move \<Rightarrow> jsstring" where
  "entry i m = decimal (i + 1) @ ascii ''. '' @ from_sq m @ ascii ''-'' @ to_sq m"

text \<open>\<^verbatim>\<open>history.map(...)\<close>, which throws when \<^verbatim>\<open>history\<close> has no \<^verbatim>\<open>map\<close>.\<close>

definition history_map :: "history_field \<Rightarrow> error + jsstring list" where
  "history_map h =
     (case h of
        Absent \<Rightarrow> Inl TypeError
      | NotArray \<Rightarrow> Inl TypeError
      | Moves ms \<Rightarrow> Inr (map (\<lambda>(i, m). entry i m) (enumerate 0 ms)))"

text \<open>
  The template of the source, lines 39 to 41. The variable \<^verbatim>\<open>fen\<close> does not occur
  in it, so the function does not take it.
\<close>

definition user :: "history_field \<Rightarrow> error + jsstring" where
  "user h =
     (case history_map h of
        Inl e \<Rightarrow> Inl e
      | Inr entries \<Rightarrow>
          Inr (ascii ''FEN: Move history: '' @ JSON_stringify entries @ [0x0A]
               @ ascii ''Respond with one UCI move only.''))"

definition body :: "config \<Rightarrow> jsstring \<Rightarrow> chat_request" where
  "body cfg u =
     \<lparr> model = (case GPT_MODEL cfg of
                  None \<Rightarrow> ascii ''gpt-4o-mini''
                | Some m \<Rightarrow> if m = [] then ascii ''gpt-4o-mini'' else m),
       messages = [(ascii ''system'', system), (ascii ''user'', u)],
       authorization = ascii ''Bearer '' @ (case OPENAI_KEY cfg of
                                             None \<Rightarrow> ascii ''undefined''
                                           | Some k \<Rightarrow> k) \<rparr>"

subsection \<open>Reading the reply out of the upstream JSON\<close>

text \<open>
  The four property reads of the handler: \<^verbatim>\<open>.choices\<close>, \<^verbatim>\<open>[0]\<close>, \<^verbatim>\<open>.message\<close>
  and \<^verbatim>\<open>.content\<close>. Reading a property of \<^verbatim>\<open>undefined\<close> or \<^verbatim>\<open>null\<close> throws;
  a boolean or a number has none of the four; a string has only \<^verbatim>\<open>[0]\<close>, its first
  code unit; an array has only \<^verbatim>\<open>[0]\<close>, its first element; an object has what its
  own properties give (none of the four names is on \<^verbatim>\<open>Object.prototype\<close>).
\<close>

datatype property = Choices | Index0 | Message | Content

fun prop_name :: "property \<Rightarrow> jsstring" where
  "prop_name Choices = ascii ''choices''"
| "prop_name Index0 = ascii ''0''"
| "prop_name Message = ascii ''message''"
| "prop_name Content = ascii ''content''"

fun get :: "jsval \<Rightarrow> property \<Rightarrow> error + jsval" where
  "get JUndefined p = Inl TypeError"
| "get JNull p = Inl TypeError"
| "get (JBool b) p = Inr JUndefined"
| "get (JNum n) p = Inr JUndefined"
| "get (JStr s) p =
     Inr (case p of
            Index0 \<Rightarrow> (case s of [] \<Rightarrow> JUndefined | c # cs \<Rightarrow> JStr [c])
          | _ \<Rightarrow> JUndefined)"
| "get (JArr xs) p =
     Inr (case p of
            Index0 \<Rightarrow> (case xs of [] \<Rightarrow> JUndefined | x # ys \<Rightarrow> x)
          | _ \<Rightarrow> JUndefined)"
| "get (JObj kvs) p =
     Inr (case map_of kvs (prop_name p) of None \<Rightarrow> JUndefined | Some v \<Rightarrow> v)"

text \<open>A property read whose object is itself the result of an expression that may throw.\<close>

definition get_of :: "error + jsval \<Rightarrow> property \<Rightarrow> error + jsval" where
  "get_of a p = (case a of Inl e \<Rightarrow> Inl e | Inr v \<Rightarrow> get v p)"

text \<open>\<^verbatim>\<open>a && b\<close>: the value of \<open>a\<close> when it is falsy, and else the value of \<open>b\<close>.\<close>

definition js_and :: "error + jsval \<Rightarrow> error + jsval \<Rightarrow> error + jsval" where
  "js_and a b = (case a of Inl e \<Rightarrow> Inl e | Inr v \<Rightarrow> if truthy v then b else Inr v)"

text \<open>Lines 69 to 73 of the source.\<close>

definition reply_of :: "jsval \<Rightarrow> error + jsval" where
  "reply_of j =
     js_and
       (js_and
          (js_and (get j Choices) (get_of (get j Choices) Index0))
          (get_of (get_of (get j Choices) Index0) Message))
       (get_of (get_of (get_of (get j Choices) Index0) Message) Content)"

subsection \<open>The move matcher\<close>

text \<open>
  \<^verbatim>\<open>String.prototype.trim\<close> removes the code units of \<^verbatim>\<open>WhiteSpace\<close> and
  \<^verbatim>\<open>LineTerminator\<close> from both ends.
\<close>

definition is_white_space :: "code_unit \<Rightarrow> bool" where
  "is_white_space c =
     (c \<in> {0x09, 0x0A, 0x0B, 0x0C, 0x0D, 0x20, 0xA0, 0x1680, 0x2028, 0x2029, 0x202F,
            0x205F, 0x3000, 0xFEFF}
      \<or> (0x2000 \<le> c \<and> c \<le> 0x200A))"

definition trim :: "jsstring \<Rightarrow> jsstring" where
  "trim s = rev (dropWhile is_white_space (rev (dropWhile is_white_space s)))"

text \<open>
  The pattern language the source's regular expression needs: the assertion \<^verbatim>\<open>\b\<close>,
  a character class (the list of its members), and \<^verbatim>\<open>?\<close>. The expression carries
  the flag \<^verbatim>\<open>i\<close> and not \<^verbatim>\<open>u\<close>.
\<close>

datatype node = WordBoundary | CharClass jsstring | Optional node

definition moveMatcher :: "node list" where
  "moveMatcher =
     [WordBoundary, CharClass (ascii ''abcdefgh''), CharClass (ascii ''12345678''),
      CharClass (ascii ''abcdefgh''), CharClass (ascii ''12345678''),
      Optional (CharClass (ascii ''qrbn'')), WordBoundary]"

text \<open>\<^verbatim>\<open>\b\<close> looks at the code units on both sides: \<^verbatim>\<open>[A-Za-z0-9_]\<close> are word characters.\<close>

definition is_word_char :: "code_unit \<Rightarrow> bool" where
  "is_word_char c =
     ((0x61 \<le> c \<and> c \<le> 0x7A) \<or> (0x41 \<le> c \<and> c \<le> 0x5A) \<or> (0x30 \<le> c \<and> c \<le> 0x39)
      \<or> c = 0x5F)"

definition is_word_at :: "jsstring \<Rightarrow> int \<Rightarrow> bool" where
  "is_word_at s e = (0 \<le> e \<and> e < int (length s) \<and> is_word_char (s ! nat e))"

definition word_boundary :: "jsstring \<Rightarrow> nat \<Rightarrow> bool" where
  "word_boundary s i = (is_word_at s (int i - 1) \<noteq> is_word_at s (int i))"

text \<open>
  \<^verbatim>\<open>Canonicalize\<close> under the flag \<^verbatim>\<open>i\<close> without \<^verbatim>\<open>u\<close> maps a code unit to its upper
  case, and never maps a code unit from 128 on to one below 128. The classes of the
  pattern hold ASCII only, so all that matters above 127 is that the result stays there:
  the model leaves those code units as they are.
\<close>

definition canonicalize :: "code_unit \<Rightarrow> code_unit" where
  "canonicalize c = (if 0x61 \<le> c \<and> c \<le> 0x7A then c - 0x20 else c)"

definition class_matches :: "jsstring \<Rightarrow> code_unit \<Rightarrow> bool" where
  "class_matches cls ch = (canonicalize ch \<in> set (map canonicalize cls))"

text \<open>
  The backtracking matcher: \<open>matcher p s i\<close> is the end of the match of the nodes \<open>p\<close>
  in \<open>s\<close> from index \<open>i\<close>. \<^verbatim>\<open>?\<close> is greedy: it tries its node first.
\<close>

fun matcher :: "node list \<Rightarrow> jsstring \<Rightarrow> nat \<Rightarrow> nat option" where
  "matcher [] s i = Some i"
| "matcher (WordBoundary # p) s i = (if word_boundary s i then matcher p s i else None)"
| "matcher (CharClass cls # p) s i =
     (if i < length s \<and> class_matches cls (s ! i) then matcher p s (i + 1) else None)"
| "matcher (Optional n # p) s i =
     (case matcher (n # p) s i of Some e \<Rightarrow> Some e | None \<Rightarrow> matcher p s i)"

text \<open>
  \<^verbatim>\<open>RegExpBuiltinExec\<close> for an expression that is neither global nor sticky: the first
  index from \<open>i\<close>, up to the length of the string, where the matcher succeeds.
\<close>

function regexp_exec :: "node list \<Rightarrow> jsstring \<Rightarrow> nat \<Rightarrow> (nat \<times> nat) option" where
  "regexp_exec p s i =
     (if length s < i then None
      else case matcher p s i of
             Some e \<Rightarrow> Some (i, e)
           | None \<Rightarrow> regexp_exec p s (i + 1))"
  by pat_completeness auto
termination
  by (relation "measure (\<lambda>(p, s, i). Suc (length s) - i)") auto

declare regexp_exec.simps [simp del]

text \<open>The code units of \<open>s\<close> from index \<open>i\<close> up to, and without, index \<open>e\<close>.\<close>

definition substring :: "jsstring \<Rightarrow> nat \<Rightarrow> nat \<Rightarrow> jsstring" where
  "substring s i e = take (e - i) (drop i s)"

text \<open>\<^verbatim>\<open>s.match(p)\<close>: \<open>None\<close> for \<^verbatim>\<open>null\<close>, and else the matched text \<^verbatim>\<open>m[0]\<close>.\<close>

definition match :: "jsstring \<Rightarrow> node list \<Rightarrow> jsstring option" where
  "match s p =
     (case regexp_exec p s 0 of
        None \<Rightarrow> None
      | Some (i, e) \<Rightarrow> Some (substring s i e))"

text \<open>
  \<^verbatim>\<open>s.replace(pat, rep)\<close> with a string pattern and a replacement without \<^verbatim>\<open>$\<close>:
  the first occurrence of \<open>pat\<close> is replaced.
\<close>

fun replace :: "jsstring \<Rightarrow> jsstring \<Rightarrow> jsstring \<Rightarrow> jsstring" where
  "replace pat rep [] = (if pat = [] then rep else [])"
| "replace pat rep (c # cs) =
     (if prefix pat (c # cs) then rep @ drop (length pat) (c # cs)
      else c # replace pat rep cs)"

subsection \<open>The handler\<close>

text \<open>Lines 78 and 79: \<open>None\<close> is \<^verbatim>\<open>null\<close>.\<close>

definition extract_move :: "jsstring \<Rightarrow> jsstring option" where
  "extract_move reply =
     (case match (trim reply) moveMatcher of
        None \<Rightarrow> None
      | Some m0 \<Rightarrow> Some (replace (ascii ''-'') [] m0))"

text \<open>Lines 78 to 84, for a truthy \<^verbatim>\<open>reply\<close>: only a string has \<^verbatim>\<open>trim\<close>.\<close>

definition answer :: "jsval \<Rightarrow> error + response" where
  "answer reply =
     (case reply of
        JStr text \<Rightarrow>
          (case extract_move text of
             None \<Rightarrow> Inr \<lparr>status = 200, sent = Json [(ascii ''move'', JNull), (ascii ''raw'', JStr text)]\<rparr>
           | Some mv \<Rightarrow>
               if mv = []
               then Inr \<lparr>status = 200, sent = Json [(ascii ''move'', JNull), (ascii ''raw'', JStr text)]\<rparr>
               else Inr \<lparr>status = 200, sent = Json [(ascii ''move'', JStr mv)]\<rparr>)
      | _ \<Rightarrow> Inl TypeError)"

text \<open>Lines 62 to 84: what the handler does with the outcome of \<^verbatim>\<open>await fetch\<close>.\<close>

definition after_fetch :: "error + fetch_response \<Rightarrow> error + response" where
  "after_fetch outcome =
     (case outcome of
        Inl e \<Rightarrow> Inl e
      | Inr r \<Rightarrow>
          if \<not> r_ok r then
            (case r_text r of
               Inl e \<Rightarrow> Inl e
             | Inr txt \<Rightarrow> Inr \<lparr>status = 500, sent = Send (ascii ''OpenAI API error: '' @ txt)\<rparr>)
          else
            (case r_json r of
               Inl e \<Rightarrow> Inl e
             | Inr j \<Rightarrow>
                 (case reply_of j of
                    Inl e \<Rightarrow> Inl e
                  | Inr reply \<Rightarrow>
                      if \<not> truthy reply
                      then Inr \<lparr>status = 500, sent = Send (ascii ''Empty reply from OpenAI'')\<rparr>
                      else answer reply)))"

text \<open>Lines 85 to 88: the \<^verbatim>\<open>catch\<close> of the handler.\<close>

definition catch :: "error + response \<Rightarrow> response" where
  "catch x = (case x of Inl err \<Rightarrow> \<lparr>status = 500, sent = SendMessage err\<rparr> | Inr res \<Rightarrow> res)"

text \<open>
  The handler of \<^verbatim>\<open>POST /ai-move\<close>: the response, and the calls made to the upstream
  endpoint, in order.
\<close>

definition ai_move :: "config \<Rightarrow> upstream \<Rightarrow> request_body \<Rightarrow> response \<times> chat_request list" where
  "ai_move cfg fetch req =
     (if \<not> truthy (fen req)
      then (\<lparr>status = 400, sent = Send (ascii ''Missing next move'')\<rparr>, [])
      else case user (history req) of
             Inl e \<Rightarrow> (catch (Inl e), [])
           | Inr u \<Rightarrow> (catch (after_fetch (fetch (body cfg u))), [body cfg u]))"

subsection \<open>The move token as the interface documents it\<close>

text \<open>
  The documented result is a token \<^verbatim>\<open>[a-h][1-8][a-h][1-8][qrbn]?\<close>, in either case.
  These predicates follow that wording, not the matcher; the matcher is compared with
  them below.
\<close>

definition is_file :: "code_unit \<Rightarrow> bool" where
  "is_file c = (c \<in> set (ascii ''abcdefghABCDEFGH''))"

definition is_rank :: "code_unit \<Rightarrow> bool" where
  "is_rank c = (c \<in> set (ascii ''12345678''))"

definition is_promotion :: "code_unit \<Rightarrow> bool" where
  "is_promotion c = (c \<in> set (ascii ''qrbnQRBN''))"

fun uci_move :: "jsstring \<Rightarrow> bool" where
  "uci_move [a, b, c, d] = (is_file a \<and> is_rank b \<and> is_file c \<and> is_rank d)"
| "uci_move [a, b, c, d, p] = (is_file a \<and> is_rank b \<and> is_file c \<and> is_rank d \<and> is_promotion p)"
| "uci_move mv = False"

text \<open>
  The code units of \<open>s\<close> from \<open>i\<close> to \<open>e\<close> are a move token that starts and ends at
  a word boundary.
\<close>

definition move_at :: "jsstring \<Rightarrow> nat \<Rightarrow> nat \<Rightarrow> bool" where
  "move_at s i e =
     (i \<le> e \<and> e \<le> length s \<and> uci_move (substring s i e) \<and> word_boundary s i \<and> word_boundary s e)"

subsection \<open>Reading the serialized history back\<close>

text \<open>
  The reading side of \<open>JSON_stringify\<close>: the grammar of JSON for an array of strings
  written without white space. The handler never runs it; it is here to state that the
  text sent upstream determines the list of entries.
\<close>

definition unhex :: "code_unit \<Rightarrow> code_unit option" where
  "unhex d =
     (if 0x30 \<le> d \<and> d \<le> 0x39 then Some (d - 0x30)
      else if 0x61 \<le> d \<and> d \<le> 0x66 then Some (d - 0x57)
      else if 0x41 \<le> d \<and> d \<le> 0x46 then Some (d - 0x37)
      else None)"

definition unescape :: "code_unit \<Rightarrow> code_unit option" where
  "unescape e =
     (if e = 0x62 then Some 0x08
      else if e = 0x74 then Some 0x09
      else if e = 0x6E then Some 0x0A
      else if e = 0x66 then Some 0x0C
      else if e = 0x72 then Some 0x0D
      else if e = 0x22 \<or> e = 0x5C \<or> e = 0x2F then Some e
      else None)"

definition code_unit_of :: "code_unit \<Rightarrow> code_unit \<Rightarrow> code_unit \<Rightarrow> code_unit \<Rightarrow> code_unit" where
  "code_unit_of a b c d = push_bit 12 a OR push_bit 8 b OR push_bit 4 c OR d"

definition cons_to :: "code_unit \<Rightarrow> (jsstring \<times> jsstring) option \<Rightarrow> (jsstring \<times> jsstring) option" where
  "cons_to c x = map_option (\<lambda>(s, rest). (c # s, rest)) x"

text \<open>The text of a string after its opening quote: the string, and what follows its closing quote.\<close>

fun read_string :: "jsstring \<Rightarrow> (jsstring \<times> jsstring) option" where
  "read_string [] = None"
| "read_string (c # cs) =
     (if c = 0x22 then Some ([], cs)
      else if c = 0x5C then
        (case cs of
           [] \<Rightarrow> None
         | e # r \<Rightarrow>
             if e = 0x75 then
               (case r of
                  h1 # h2 # h3 # h4 # r' \<Rightarrow>
                    (case (unhex h1, unhex h2, unhex h3, unhex h4) of
                       (Some a, Some b, Some c', Some d) \<Rightarrow> cons_to (code_unit_of a b c' d) (read_string r')
                     | _ \<Rightarrow> None)
                | _ \<Rightarrow> None)
             else (case unescape e of None \<Rightarrow> None | Some u \<Rightarrow> cons_to u (read_string r)))
      else if c < 0x20 then None
      else cons_to c (read_string cs))"

text \<open>
  The items of an array after the opening quote of the first one; the first argument
  bounds the number of items read.
\<close>

fun read_items :: "nat \<Rightarrow> jsstring \<Rightarrow> jsstring list option" where
  "read_items 0 r = None"
| "read_items (Suc n) r =
     (case read_string r of
        None \<Rightarrow> None
      | Some (s, rest) \<Rightarrow>
          if rest = [0x5D] then Some [s]
          else (case rest of
                  c # q # r' \<Rightarrow>
                    if c = 0x2C \<and> q = 0x22 then map_option ((#) s) (read_items n r') else None
                | _ \<Rightarrow> None))"

definition JSON_parse_strings :: "jsstring \<Rightarrow> jsstring list option" where
  "JSON_parse_strings xs =
     (if xs = [0x5B, 0x5D] then Some []
      else (case xs of
              b # q # r \<Rightarrow> if b = 0x5B \<and> q = 0x22 then read_items (length r) r else None
            | _ \<Rightarrow> None))"

text \<open>
  The reading side of \<open>decimal\<close>: the number a decimal numeral denotes. A numeral is a
  non-empty sequence of the digits 0 to 9 that does not start with 0 unless it is the
  single digit 0.
\<close>

definition digit_value :: "code_unit \<Rightarrow> nat option" where
  "digit_value c = (if 0x30 \<le> c \<and> c \<le> 0x39 then Some (unat (c - 0x30)) else None)"

fun read_digits :: "nat \<Rightarrow> jsstring \<Rightarrow> nat option" where
  "read_digits acc [] = Some acc"
| "read_digits acc (c # cs) =
     (case digit_value c of None \<Rightarrow> None | Some v \<Rightarrow> read_digits (10 * acc + v) cs)"

definition read_decimal :: "jsstring \<Rightarrow> nat option" where
  "read_decimal d =
     (case d of
        [] \<Rightarrow> None
      | c # cs \<Rightarrow> if c = 0x30 \<and> cs \<noteq> [] then None else read_digits 0 d)"

subsection \<open>Inputs for the examples\<close>

text \<open>A chat completion body whose first choice carries the content \<open>v\<close>.\<close>

definition chat_completion :: "jsval \<Rightarrow> jsval" where
  "chat_completion v =
     JObj [(ascii ''choices'', JArr [JObj [(ascii ''message'', JObj [(ascii ''content'', v)])]])]"

text \<open>An endpoint that answers every call with status 200 and the JSON body \<open>j\<close>.\<close>

definition replying :: "jsval \<Rightarrow> upstream" where
  "replying j =
     (\<lambda>call. Inr \<lparr>r_ok = True, r_status = 200, r_statusText = ascii ''OK'',
                     r_text = Inl (Rejected []), r_json = Inr j\<rparr>)"

text \<open>
  A response with the status 401, the status text \<^verbatim>\<open>Unauthorized\<close> and the body text
  \<^verbatim>\<open>invalid api key\<close>, and an endpoint that answers every call with it.
\<close>

definition unauthorized :: fetch_response where
  "unauthorized =
     \<lparr>r_ok = False, r_status = 401, r_statusText = ascii ''Unauthorized'',
      r_text = Inr (ascii ''invalid api key''), r_json = Inl (Rejected [])\<rparr>"

definition failing :: upstream where
  "failing = (\<lambda>call. Inr unauthorized)"

definition no_config :: config where
  "no_config = \<lparr>OPENAI_KEY = None, GPT_MODEL = None\<rparr>"

text \<open>A request with a position and an empty history, and the user instruction built for it.\<close>

definition example_request :: request_body where
  "example_request = \<lparr>fen = JStr (ascii ''8/8/8/8/8/8/8/K6k w - - 0 1''), history = Moves []\<rparr>"

definition example_user :: jsstring where
  "example_user = ascii ''FEN: Move history: []'' @ [0x0A] @ ascii ''Respond with one UCI move only.''"

text \<open>A history of two plies.\<close>

definition two_plies :: "move list" where
  "two_plies = [\<lparr>from_sq = ascii ''e2'', to_sq = ascii ''e4''\<rparr>, \<lparr>from_sq = ascii ''e7'', to_sq = ascii ''e5''\<rparr>]"

section \<open>Properties\<close>

subsection \<open>The matcher finds exactly the documented tokens\<close>

lemma class_file: "class_matches (ascii ''abcdefgh'') c = is_file c"
  by (auto simp: class_matches_def is_file_def ascii_def canonicalize_def diff_eq_eq)

lemma class_rank: "class_matches (ascii ''12345678'') c = is_rank c"
  by (auto simp: class_matches_def is_rank_def ascii_def canonicalize_def diff_eq_eq)

lemma class_promotion: "class_matches (ascii ''qrbn'') c = is_promotion c"
  by (auto simp: class_matches_def is_promotion_def ascii_def canonicalize_def diff_eq_eq)

lemma matcher_moveMatcher:
  "matcher moveMatcher s i =
     (if word_boundary s i \<and> i + 4 \<le> length s \<and> is_file (s ! i) \<and> is_rank (s ! (i + 1))
         \<and> is_file (s ! (i + 2)) \<and> is_rank (s ! (i + 3))
      then if i + 5 \<le> length s \<and> is_promotion (s ! (i + 4)) \<and> word_boundary s (i + 5)
           then Some (i + 5)
           else if word_boundary s (i + 4) then Some (i + 4) else None
      else None)"
  by (simp add: moveMatcher_def class_file class_rank class_promotion eval_nat_numeral Suc_le_eq)

lemma regexp_exec_Some:
  "regexp_exec p s i = Some (a, e) \<Longrightarrow>
     i \<le> a \<and> a \<le> length s \<and> matcher p s a = Some e \<and> (\<forall>k. i \<le> k \<and> k < a \<longrightarrow> matcher p s k = None)"
proof (induction p s i rule: regexp_exec.induct)
  case (1 p s i)
  show ?case
  proof (cases "matcher p s i")
    case None
    with "1.prems" have len: "\<not> length s < i" and rec: "regexp_exec p s (i + 1) = Some (a, e)"
      by (auto simp: regexp_exec.simps [of p s i] split: if_splits)
    note IH = "1.IH" [OF len None rec]
    have "matcher p s k = None" if "i \<le> k" "k < a" for k
    proof (cases "k = i")
      case True
      with None show ?thesis by simp
    next
      case False
      with that have "i + 1 \<le> k" by simp
      with IH that show ?thesis by blast
    qed
    with IH show ?thesis by auto
  next
    case (Some e')
    with "1.prems" show ?thesis
      by (auto simp: regexp_exec.simps [of p s i] split: if_splits)
  qed
qed

lemma regexp_exec_None:
  "regexp_exec p s i = None \<longleftrightarrow> (\<forall>k. i \<le> k \<and> k \<le> length s \<longrightarrow> matcher p s k = None)"
proof (induction p s i rule: regexp_exec.induct)
  case (1 p s i)
  show ?case
  proof (cases "length s < i")
    case True
    then show ?thesis by (auto simp: regexp_exec.simps [of p s i])
  next
    case False
    show ?thesis
    proof (cases "matcher p s i")
      case None
      have "(\<forall>k. i \<le> k \<and> k \<le> length s \<longrightarrow> matcher p s k = None)
            \<longleftrightarrow> (\<forall>k. i + 1 \<le> k \<and> k \<le> length s \<longrightarrow> matcher p s k = None)"
        using None by (metis Suc_eq_plus1 Suc_leI le_neq_implies_less Suc_leD)
      with "1.IH" [OF False None] False None show ?thesis
        by (simp add: regexp_exec.simps [of p s i])
    next
      case (Some e)
      with False show ?thesis
        by (auto simp: regexp_exec.simps [of p s i])
    qed
  qed
qed

lemma substring4:
  "i + 4 \<le> length s \<Longrightarrow> substring s i (i + 4) = [s ! i, s ! (i + 1), s ! (i + 2), s ! (i + 3)]"
  by (simp add: substring_def eval_nat_numeral take_Suc_conv_app_nth Suc_le_eq)

lemma substring5:
  "i + 5 \<le> length s \<Longrightarrow>
     substring s i (i + 5) = [s ! i, s ! (i + 1), s ! (i + 2), s ! (i + 3), s ! (i + 4)]"
  by (simp add: substring_def eval_nat_numeral take_Suc_conv_app_nth Suc_le_eq)

lemma replace_absent: "c \<notin> set s \<Longrightarrow> replace [c] r s = s"
  by (induction s) auto

lemma hyphen_not_file: "is_file c \<Longrightarrow> c \<noteq> 0x2D"
  by (auto simp: is_file_def ascii_def)

lemma hyphen_not_rank: "is_rank c \<Longrightarrow> c \<noteq> 0x2D"
  by (auto simp: is_rank_def ascii_def)

lemma hyphen_not_promotion: "is_promotion c \<Longrightarrow> c \<noteq> 0x2D"
  by (auto simp: is_promotion_def ascii_def)

lemma uci_move_no_hyphen: "uci_move mv \<Longrightarrow> 0x2D \<notin> set mv"
  by (induction mv rule: uci_move.induct)
     (auto dest: hyphen_not_file hyphen_not_rank hyphen_not_promotion)

lemma matcher_uci:
  "matcher moveMatcher s i = Some e \<Longrightarrow>
     i < e \<and> e \<le> length s \<and> uci_move (substring s i e) \<and> word_boundary s i \<and> word_boundary s e"
  by (auto simp: matcher_moveMatcher substring4 substring5 split: if_splits)

lemma uci_move_length: "uci_move mv \<Longrightarrow> length mv = 4 \<or> length mv = 5"
  by (induction mv rule: uci_move.induct) auto

lemma length_substring: "e \<le> length s \<Longrightarrow> length (substring s i e) = e - i"
  by (simp add: substring_def)

lemma file_is_word: "is_file c \<Longrightarrow> is_word_char c"
  by (auto simp: is_file_def ascii_def is_word_char_def)

lemma rank_is_word: "is_rank c \<Longrightarrow> is_word_char c"
  by (auto simp: is_rank_def ascii_def is_word_char_def)

lemma promotion_is_word: "is_promotion c \<Longrightarrow> is_word_char c"
  by (auto simp: is_promotion_def ascii_def is_word_char_def)

lemma no_boundary_inside:
  assumes "0 < k" "k < length s" "is_word_char (s ! (k - 1))" "is_word_char (s ! k)"
  shows "\<not> word_boundary s k"
proof -
  from assms(1) have "nat (int k - 1) = k - 1" by simp
  with assms have "is_word_at s (int k - 1)" "is_word_at s (int k)"
    unfolding is_word_at_def by simp_all
  then show ?thesis
    unfolding word_boundary_def by simp
qed

lemma matcher_move_at: "matcher moveMatcher s i = Some e \<longleftrightarrow> move_at s i e"
proof
  assume "matcher moveMatcher s i = Some e"
  from matcher_uci [OF this] show "move_at s i e"
    by (simp add: move_at_def)
next
  assume m: "move_at s i e"
  then have len: "length (substring s i e) = e - i" and u: "uci_move (substring s i e)"
    and b: "word_boundary s i" "word_boundary s e" and le: "i \<le> e" "e \<le> length s"
    by (simp_all add: move_at_def length_substring)
  from uci_move_length [OF u] len le have "e = i + 4 \<or> e = i + 5" by auto
  then show "matcher moveMatcher s i = Some e"
  proof
    assume e: "e = i + 4"
    with u le have cls: "is_file (s ! i)" "is_rank (s ! (i + 1))" "is_file (s ! (i + 2))" "is_rank (s ! (i + 3))"
      by (simp_all add: substring4)
    have "\<not> (i + 5 \<le> length s \<and> is_promotion (s ! (i + 4)) \<and> word_boundary s (i + 5))"
    proof
      assume a: "i + 5 \<le> length s \<and> is_promotion (s ! (i + 4)) \<and> word_boundary s (i + 5)"
      have eq: "i + 4 - 1 = i + 3" by simp
      have "is_word_char (s ! (i + 4 - 1))"
        unfolding eq by (rule rank_is_word [OF cls(4)])
      moreover have "is_word_char (s ! (i + 4))" "i + 4 < length s"
        using a by (simp_all add: promotion_is_word)
      ultimately have "\<not> word_boundary s (i + 4)"
        by (intro no_boundary_inside) simp_all
      with b(2) e show False by simp
    qed
    with cls b e le show ?thesis
      by (simp add: matcher_moveMatcher)
  next
    assume e: "e = i + 5"
    with u le have "is_file (s ! i)" "is_rank (s ! (i + 1))" "is_file (s ! (i + 2))" "is_rank (s ! (i + 3))"
      "is_promotion (s ! (i + 4))"
      by (simp_all add: substring5)
    with b e le show ?thesis
      by (simp add: matcher_moveMatcher)
  qed
qed

lemma white_space_not_word: "is_white_space c \<Longrightarrow> \<not> is_word_char c"
  by (auto simp: is_white_space_def is_word_char_def word_le_nat_alt)

lemma trim_decompose:
  "\<exists>p q. t = p @ trim t @ q \<and> (\<forall>c\<in>set p. is_white_space c) \<and> (\<forall>c\<in>set q. is_white_space c)"
proof -
  define u where "u = dropWhile is_white_space t"
  define p where "p = takeWhile is_white_space t"
  define q where "q = rev (takeWhile is_white_space (rev u))"
  have "rev (dropWhile is_white_space (rev u)) @ rev (takeWhile is_white_space (rev u))
        = rev (takeWhile is_white_space (rev u) @ dropWhile is_white_space (rev u))"
    by (simp only: rev_append)
  also have "\<dots> = u"
    by (simp only: takeWhile_dropWhile_id rev_rev_ident)
  finally have "u = trim t @ q"
    by (simp add: trim_def q_def u_def)
  moreover have "t = p @ u"
    by (simp add: p_def u_def)
  moreover have "\<forall>c\<in>set p. is_white_space c"
    by (auto simp: p_def dest: set_takeWhileD)
  moreover have "\<forall>c\<in>set q. is_white_space c"
    by (auto simp: q_def dest: set_takeWhileD)
  ultimately show ?thesis by blast
qed

lemma is_word_at_context:
  assumes p: "\<forall>c\<in>set p. \<not> is_word_char c" and q: "\<forall>c\<in>set q. \<not> is_word_char c"
    and x: "- 1 \<le> x" "x \<le> int (length u)"
  shows "is_word_at (p @ u @ q) (int (length p) + x) = is_word_at u x"
proof -
  consider "x = - 1" | "0 \<le> x" "x < int (length u)" | "x = int (length u)"
    using x by linarith
  then show ?thesis
  proof cases
    case 1
    have "\<not> is_word_at (p @ u @ q) (int (length p) - 1)"
    proof (cases p rule: rev_cases)
      case Nil
      then show ?thesis by (simp add: is_word_at_def)
    next
      case (snoc p' c)
      with p have "\<not> is_word_char c" by simp
      with snoc show ?thesis by (simp add: is_word_at_def nth_append)
    qed
    with 1 show ?thesis by (simp add: is_word_at_def)
  next
    case 2
    define k where "k = nat x"
    with 2 have k: "x = int k" "k < length u"
      by simp_all
    have "int (length p) + int k = int (length p + k)" by simp
    then have "nat (int (length p) + int k) = length p + k" by (simp only: nat_int)
    with k show ?thesis
      by (simp add: is_word_at_def nth_append)
  next
    case 3
    have "\<not> is_word_at (p @ u @ q) (int (length p + length u))"
    proof (cases q)
      case Nil
      then show ?thesis by (simp add: is_word_at_def)
    next
      case (Cons c q')
      with q have "\<not> is_word_char c" by simp
      with Cons show ?thesis
        unfolding is_word_at_def nat_int by (simp add: nth_append)
    qed
    with 3 show ?thesis by (simp add: is_word_at_def)
  qed
qed

lemma word_boundary_context:
  assumes "\<forall>c\<in>set p. \<not> is_word_char c" "\<forall>c\<in>set q. \<not> is_word_char c" "k \<le> length u"
  shows "word_boundary (p @ u @ q) (length p + k) = word_boundary u k"
proof -
  have e1: "int (length p + k) - 1 = int (length p) + (int k - 1)"
    and e2: "int (length p + k) = int (length p) + int k"
    by simp_all
  have a: "is_word_at (p @ u @ q) (int (length p + k) - 1) = is_word_at u (int k - 1)"
    unfolding e1 using assms by (intro is_word_at_context) simp_all
  have b: "is_word_at (p @ u @ q) (int (length p + k)) = is_word_at u (int k)"
    unfolding e2 using assms by (intro is_word_at_context) simp_all
  show ?thesis
    unfolding word_boundary_def by (simp only: a b)
qed

lemma substring_context:
  "i \<le> e \<Longrightarrow> e \<le> length u \<Longrightarrow> substring (p @ u @ q) (length p + i) (length p + e) = substring u i e"
  by (simp add: substring_def)

lemma move_at_context:
  assumes "\<forall>c\<in>set p. \<not> is_word_char c" "\<forall>c\<in>set q. \<not> is_word_char c" "move_at u i e"
  shows "move_at (p @ u @ q) (length p + i) (length p + e)"
  using assms by (simp add: move_at_def substring_context word_boundary_context)

lemma move_at_trim:
  assumes "move_at (trim t) i e"
  shows "\<exists>i' e'. move_at t i' e'"
proof -
  from trim_decompose [of t] obtain p q where t: "t = p @ trim t @ q"
    and ws: "\<forall>c\<in>set p. is_white_space c" "\<forall>c\<in>set q. is_white_space c"
    by blast
  from ws have "\<forall>c\<in>set p. \<not> is_word_char c" "\<forall>c\<in>set q. \<not> is_word_char c"
    by (simp_all add: white_space_not_word)
  from move_at_context [OF this assms] have "move_at (p @ trim t @ q) (length p + i) (length p + e)" .
  then have "move_at t (length p + i) (length p + e)"
    by (simp only: t [symmetric])
  then show ?thesis by blast
qed

subsection \<open>Extraction, in terms of the documented tokens\<close>

lemma no_move_at_iff:
  "(\<forall>i e. \<not> move_at s i e) \<longleftrightarrow> regexp_exec moveMatcher s 0 = None"
proof -
  have "move_at s i e \<Longrightarrow> i \<le> length s" for i e
    by (simp add: move_at_def)
  then have "(\<forall>i e. \<not> move_at s i e) \<longleftrightarrow> (\<forall>i. i \<le> length s \<longrightarrow> (\<forall>e. \<not> move_at s i e))"
    by blast
  also have "\<dots> \<longleftrightarrow> (\<forall>i. i \<le> length s \<longrightarrow> matcher moveMatcher s i = None)"
    by (simp add: matcher_move_at [symmetric])
  finally show ?thesis
    by (simp add: regexp_exec_None)
qed

lemma extract_move_None:
  "extract_move t = None \<longleftrightarrow> (\<forall>i e. \<not> move_at (trim t) i e)"
proof -
  have "extract_move t = None \<longleftrightarrow> regexp_exec moveMatcher (trim t) 0 = None"
    by (auto simp: extract_move_def match_def split: option.splits)
  also have "\<dots> \<longleftrightarrow> (\<forall>k. k \<le> length (trim t) \<longrightarrow> matcher moveMatcher (trim t) k = None)"
    by (simp add: regexp_exec_None)
  also have "\<dots> \<longleftrightarrow> (\<forall>i e. \<not> move_at (trim t) i e)"
  proof
    assume a: "\<forall>k. k \<le> length (trim t) \<longrightarrow> matcher moveMatcher (trim t) k = None"
    show "\<forall>i e. \<not> move_at (trim t) i e"
    proof (intro allI notI)
      fix i e assume m: "move_at (trim t) i e"
      then have "i \<le> length (trim t)" by (simp add: move_at_def)
      with a have "matcher moveMatcher (trim t) i = None" by blast
      with m show False by (simp add: matcher_move_at [symmetric])
    qed
  next
    assume a: "\<forall>i e. \<not> move_at (trim t) i e"
    show "\<forall>k. k \<le> length (trim t) \<longrightarrow> matcher moveMatcher (trim t) k = None"
    proof (intro allI impI)
      fix k
      show "matcher moveMatcher (trim t) k = None"
      proof (cases "matcher moveMatcher (trim t) k")
        case (Some e)
        then have "move_at (trim t) k e" by (simp add: matcher_move_at)
        with a show ?thesis by blast
      qed simp
    qed
  qed
  finally show ?thesis .
qed

lemma extract_move_Some:
  assumes "extract_move t = Some mv"
  shows "\<exists>i e. move_at (trim t) i e \<and> mv = substring (trim t) i e
           \<and> (\<forall>k < i. \<forall>e'. \<not> move_at (trim t) k e')"
proof -
  from assms obtain i e where ex: "regexp_exec moveMatcher (trim t) 0 = Some (i, e)"
    and mv: "mv = replace (ascii ''-'') [] (substring (trim t) i e)"
    by (auto simp: extract_move_def match_def split: option.splits)
  from regexp_exec_Some [OF ex] have m: "matcher moveMatcher (trim t) i = Some e"
    and first: "\<forall>k. k < i \<longrightarrow> matcher moveMatcher (trim t) k = None"
    by simp_all
  from m have at: "move_at (trim t) i e" by (simp add: matcher_move_at)
  then have "0x2D \<notin> set (substring (trim t) i e)"
    by (simp add: move_at_def uci_move_no_hyphen)
  then have "replace [0x2D] [] (substring (trim t) i e) = substring (trim t) i e"
    by (rule replace_absent)
  with mv have "mv = substring (trim t) i e" by (simp add: ascii_def)
  moreover from first have "\<forall>k < i. \<forall>e'. \<not> move_at (trim t) k e'"
    by (simp add: matcher_move_at [symmetric])
  ultimately show ?thesis using at by blast
qed

lemma uci_move_nonempty: "uci_move mv \<Longrightarrow> mv \<noteq> []"
  by (auto dest: uci_move_length)

lemma extract_move_uci: "extract_move t = Some mv \<Longrightarrow> uci_move mv"
  by (auto dest!: extract_move_Some simp: move_at_def)

lemma answer_None:
  "extract_move t = None \<Longrightarrow>
     answer (JStr t) = Inr \<lparr>status = 200, sent = Json [(ascii ''move'', JNull), (ascii ''raw'', JStr t)]\<rparr>"
  by (simp add: answer_def)

lemma answer_Some:
  "extract_move t = Some mv \<Longrightarrow>
     answer (JStr t) = Inr \<lparr>status = 200, sent = Json [(ascii ''move'', JStr mv)]\<rparr>"
  by (frule extract_move_uci) (auto simp: answer_def dest: uci_move_nonempty)

subsection \<open>The handler on the examples\<close>

lemma user_Moves_Nil:
  "user (Moves []) = Inr (ascii ''FEN: Move history: []'' @ [0x0A] @ ascii ''Respond with one UCI move only.'')"
  by (simp add: user_def history_map_def JSON_stringify_def enumerate_eq_zip ascii_def)

lemma example_request_truthy: "truthy (fen example_request)"
  by (simp add: example_request_def ascii_def)

lemma example_request_user: "user (history example_request) = Inr example_user"
  by (simp add: example_request_def example_user_def user_Moves_Nil)

lemma replying_apply:
  "replying j call =
     Inr \<lparr>r_ok = True, r_status = 200, r_statusText = ascii ''OK'',
          r_text = Inl (Rejected []), r_json = Inr j\<rparr>"
  by (simp add: replying_def)

lemma reply_of_chat_completion: "reply_of (chat_completion v) = Inr v"
  by (cases v) (simp_all add: reply_of_def chat_completion_def js_and_def get_of_def ascii_def)


lemma ai_move_answer:
  assumes "truthy (fen req)" "user (history req) = Inr u" "fetch (body cfg u) = Inr r"
    and "r_ok r" "r_json r = Inr j" "reply_of j = Inr (JStr t)" "t \<noteq> []"
  shows "ai_move cfg fetch req = (catch (answer (JStr t)), [body cfg u])"
  using assms by (simp add: ai_move_def after_fetch_def)

subsection \<open>Request validation\<close>

text \<open>
  Claim C4. When the body has no \<^verbatim>\<open>fen\<close>, or a falsy one such as the empty string, the
  handler answers 400 with the text \<^verbatim>\<open>Missing next move\<close> and makes no call to the
  upstream endpoint, whatever the rest of the request and the endpoint are.
\<close>

theorem missing_fen_is_400:
  "\<not> truthy (fen req) \<Longrightarrow>
     ai_move cfg fetch req = (\<lparr>status = 400, sent = Send (ascii ''Missing next move'')\<rparr>, [])"
  by (simp add: ai_move_def)

theorem missing_fen_is_400_witness:
  "\<not> truthy JUndefined \<and> \<not> truthy (JStr []) \<and>
   ai_move no_config (replying (chat_completion (JStr (ascii ''e2e4'')))) \<lparr>fen = JUndefined, history = Moves []\<rparr>
     = (\<lparr>status = 400, sent = Send (ascii ''Missing next move'')\<rparr>, []) \<and>
   ai_move no_config (replying (chat_completion (JStr (ascii ''e2e4'')))) \<lparr>fen = JStr [], history = Moves []\<rparr>
     = (\<lparr>status = 400, sent = Send (ascii ''Missing next move'')\<rparr>, [])"
  using missing_fen_is_400 [of "\<lparr>fen = JUndefined, history = Moves []\<rparr>" no_config
      "replying (chat_completion (JStr (ascii ''e2e4'')))"]
    missing_fen_is_400 [of "\<lparr>fen = JStr [], history = Moves []\<rparr>" no_config
      "replying (chat_completion (JStr (ascii ''e2e4'')))"]
  by simp

text \<open>
  Claim C9. When \<^verbatim>\<open>fen\<close> passes the check and \<^verbatim>\<open>history\<close> is absent or is not an
  array, \<^verbatim>\<open>history.map\<close> throws a \<^verbatim>\<open>TypeError\<close>; the \<^verbatim>\<open>catch\<close> answers 500
  with its message, not 400, before any call to the upstream endpoint.
\<close>

theorem history_without_map_is_500:
  "truthy (fen req) \<Longrightarrow> history req = Absent \<or> history req = NotArray \<Longrightarrow>
     ai_move cfg fetch req = (\<lparr>status = 500, sent = SendMessage TypeError\<rparr>, [])"
  by (auto simp: ai_move_def user_def history_map_def catch_def)

theorem history_without_map_is_500_witness:
  "truthy (fen example_request) \<and>
   ai_move no_config (replying (chat_completion (JStr (ascii ''e2e4'')))) (example_request\<lparr>history := Absent\<rparr>)
     = (\<lparr>status = 500, sent = SendMessage TypeError\<rparr>, []) \<and>
   ai_move no_config (replying (chat_completion (JStr (ascii ''e2e4'')))) (example_request\<lparr>history := NotArray\<rparr>)
     = (\<lparr>status = 500, sent = SendMessage TypeError\<rparr>, [])"
  using history_without_map_is_500 [of "example_request\<lparr>history := Absent\<rparr>" no_config
      "replying (chat_completion (JStr (ascii ''e2e4'')))"]
    history_without_map_is_500 [of "example_request\<lparr>history := NotArray\<rparr>" no_config
      "replying (chat_completion (JStr (ascii ''e2e4'')))"]
    example_request_truthy
  by simp

subsection \<open>Upstream failures\<close>

lemma failing_apply: "failing call = Inr unauthorized"
  by (simp add: failing_def)

text \<open>
  Claim C5, as amended. When the upstream response has an error status, the handler
  answers 500 with \<^verbatim>\<open>OpenAI API error: \<close> followed by the text of the body of the
  upstream response (or, when reading that body is rejected, with the message of the
  rejection). It has made one call, and the JSON of the response is not read: no move is
  extracted.
\<close>

theorem upstream_error_is_500:
  assumes "truthy (fen req)" "user (history req) = Inr u" "fetch (body cfg u) = Inr r" "\<not> r_ok r"
  shows "ai_move cfg fetch req =
           (\<lparr>status = 500,
             sent = (case r_text r of
                       Inl e \<Rightarrow> SendMessage e
                     | Inr txt \<Rightarrow> Send (ascii ''OpenAI API error: '' @ txt))\<rparr>,
            [body cfg u])"
  using assms by (simp add: ai_move_def after_fetch_def catch_def split: sum.splits)

theorem upstream_error_is_500_witness:
  "\<not> r_ok unauthorized \<and>
   ai_move no_config failing example_request
     = (\<lparr>status = 500, sent = Send (ascii ''OpenAI API error: '' @ ascii ''invalid api key'')\<rparr>,
        [body no_config example_user])"
proof -
  have no: "\<not> r_ok unauthorized"
    by (simp add: unauthorized_def)
  from upstream_error_is_500 [OF example_request_truthy example_request_user failing_apply no]
  show ?thesis
    by (simp add: unauthorized_def)
qed

text \<open>
  Claim C5 as it is written says that the body of the response includes the status text
  of the upstream response. The handler reads \<^verbatim>\<open>r.text()\<close>, the body, and never
  \<^verbatim>\<open>r.statusText\<close>: for the response \<open>unauthorized\<close> the text sent does not contain
  \<^verbatim>\<open>Unauthorized\<close>.
\<close>

theorem upstream_status_text_is_not_sent:
  "\<not> r_ok unauthorized
   \<and> r_statusText unauthorized = ascii ''Unauthorized''
   \<and> fst (ai_move no_config failing example_request)
       = \<lparr>status = 500, sent = Send (ascii ''OpenAI API error: invalid api key'')\<rparr>
   \<and> \<not> sublist (r_statusText unauthorized) (ascii ''OpenAI API error: invalid api key'')"
proof -
  have "0x55 \<in> set (ascii ''Unauthorized'')"
    by (simp add: ascii_def)
  moreover have "0x55 \<notin> set (ascii ''OpenAI API error: invalid api key'')"
    by (simp add: ascii_def)
  ultimately have "\<not> sublist (ascii ''Unauthorized'') (ascii ''OpenAI API error: invalid api key'')"
    by (meson set_mono_sublist subsetD)
  moreover have "fst (ai_move no_config failing example_request)
       = \<lparr>status = 500, sent = Send (ascii ''OpenAI API error: invalid api key'')\<rparr>"
    using example_request_truthy example_request_user
    by (simp add: ai_move_def failing_def after_fetch_def catch_def unauthorized_def ascii_def)
  ultimately show ?thesis
    by (simp add: unauthorized_def)
qed



subsection \<open>Replies without a move\<close>

text \<open>
  Claim C3. When the upstream response has a success status and its reply is a non-empty
  text in which no substring is a move token between word boundaries, the handler
  answers 200 with \<^verbatim>\<open>move: null\<close> and \<^verbatim>\<open>raw\<close> equal to the reply as received.
\<close>

theorem unparsed_reply_is_200:
  assumes "truthy (fen req)" "user (history req) = Inr u" "fetch (body cfg u) = Inr r"
    and "r_ok r" "r_json r = Inr j" "reply_of j = Inr (JStr t)" "t \<noteq> []"
    and none: "\<forall>i e. \<not> move_at t i e"
  shows "ai_move cfg fetch req =
           (\<lparr>status = 200, sent = Json [(ascii ''move'', JNull), (ascii ''raw'', JStr t)]\<rparr>,
            [body cfg u])"
proof -
  from none have "\<forall>i e. \<not> move_at (trim t) i e"
    by (blast dest: move_at_trim)
  then have "extract_move t = None"
    by (simp add: extract_move_None)
  moreover have "ai_move cfg fetch req = (catch (answer (JStr t)), [body cfg u])"
    using assms(1-7) by (rule ai_move_answer)
  ultimately show ?thesis
    by (simp add: answer_None catch_def)
qed

theorem unparsed_reply_is_200_witness:
  "ai_move no_config (replying (chat_completion (JStr (ascii ''I cannot determine a move'')))) example_request
     = (\<lparr>status = 200,
         sent = Json [(ascii ''move'', JNull), (ascii ''raw'', JStr (ascii ''I cannot determine a move''))]\<rparr>,
        [body no_config example_user])"
proof -
  have "regexp_exec moveMatcher (ascii ''I cannot determine a move'') 0 = None"
    by code_simp
  then have none: "\<forall>i e. \<not> move_at (ascii ''I cannot determine a move'') i e"
    by (simp add: no_move_at_iff)
  have ne: "ascii ''I cannot determine a move'' \<noteq> []"
    by (simp add: ascii_def)
  from unparsed_reply_is_200 [OF example_request_truthy example_request_user replying_apply _ _
      reply_of_chat_completion ne none]
  show ?thesis by simp
qed

subsection \<open>Responses with status 200\<close>

lemma answer_shape:
  assumes "answer v = Inr res"
  shows "(\<exists>t mv. v = JStr t \<and> extract_move t = Some mv
            \<and> res = \<lparr>status = 200, sent = Json [(ascii ''move'', JStr mv)]\<rparr>)
       \<or> (\<exists>t. v = JStr t \<and> extract_move t = None
            \<and> res = \<lparr>status = 200, sent = Json [(ascii ''move'', JNull), (ascii ''raw'', JStr t)]\<rparr>)"
proof (cases v)
  case (JStr t)
  show ?thesis
  proof (cases "extract_move t")
    case None
    with JStr assms show ?thesis by (simp add: answer_None)
  next
    case (Some mv)
    with JStr assms show ?thesis by (simp add: answer_Some)
  qed
qed (use assms in \<open>simp_all add: answer_def\<close>)

lemma after_fetch_shape:
  assumes "after_fetch x = Inr res"
  shows "status res = 500 \<or> (\<exists>v. answer v = Inr res)"
  using assms by (auto simp: after_fetch_def split: sum.splits if_splits)

lemma ai_move_200:
  assumes "status (fst (ai_move cfg fetch req)) = 200"
  shows "\<exists>v. answer v = Inr (fst (ai_move cfg fetch req))"
proof -
  from assms have t: "truthy (fen req)"
    by (auto simp: ai_move_def split: if_splits)
  from assms t obtain u where u: "user (history req) = Inr u"
    by (cases "user (history req)") (auto simp: ai_move_def catch_def)
  with t have r: "fst (ai_move cfg fetch req) = catch (after_fetch (fetch (body cfg u)))"
    by (simp add: ai_move_def)
  with assms obtain res where res: "after_fetch (fetch (body cfg u)) = Inr res"
    by (cases "after_fetch (fetch (body cfg u))") (auto simp: catch_def)
  with r assms have "status res = 200" by (simp add: catch_def)
  with after_fetch_shape [OF res] have "\<exists>v. answer v = Inr res" by simp
  with r res show ?thesis by (simp add: catch_def)
qed

lemma extract_e2e4: "extract_move (ascii ''e2e4'') = Some (ascii ''e2e4'')"
  by code_simp

text \<open>
  Claim C8. In every response with status 200, either \<^verbatim>\<open>move\<close> is a string of four or
  five code units \<^verbatim>\<open>[a-h][1-8][a-h][1-8][qrbn]?\<close> in either case and there is no
  \<^verbatim>\<open>raw\<close>, or \<^verbatim>\<open>move\<close> is null and \<^verbatim>\<open>raw\<close> is a text from which no move was
  extracted.
\<close>

theorem ok_response_shape:
  assumes "status (fst (ai_move cfg fetch req)) = 200"
  shows "(\<exists>mv. sent (fst (ai_move cfg fetch req)) = Json [(ascii ''move'', JStr mv)] \<and> uci_move mv)
       \<or> (\<exists>raw. sent (fst (ai_move cfg fetch req)) = Json [(ascii ''move'', JNull), (ascii ''raw'', JStr raw)]
             \<and> extract_move raw = None)"
proof -
  from ai_move_200 [OF assms] obtain v where "answer v = Inr (fst (ai_move cfg fetch req))" ..
  from answer_shape [OF this] show ?thesis
    by (auto dest: extract_move_uci)
qed

theorem ok_response_shape_witness:
  "status (fst (ai_move no_config (replying (chat_completion (JStr (ascii ''e2e4'')))) example_request)) = 200
   \<and> sent (fst (ai_move no_config (replying (chat_completion (JStr (ascii ''e2e4'')))) example_request))
       = Json [(ascii ''move'', JStr (ascii ''e2e4''))]
   \<and> uci_move (ascii ''e2e4'')"
proof -
  have ne: "ascii ''e2e4'' \<noteq> []" by (simp add: ascii_def)
  have run: "ai_move no_config (replying (chat_completion (JStr (ascii ''e2e4'')))) example_request
      = (\<lparr>status = 200, sent = Json [(ascii ''move'', JStr (ascii ''e2e4''))]\<rparr>, [body no_config example_user])"
    using ai_move_answer [where cfg = no_config, OF example_request_truthy example_request_user
        replying_apply _ _ reply_of_chat_completion ne]
    by (simp add: answer_Some [OF extract_e2e4] catch_def)
  then have st: "status (fst (ai_move no_config (replying (chat_completion (JStr (ascii ''e2e4'')))) example_request)) = 200"
    by simp
  have "ascii ''move'' \<noteq> ascii ''raw''" by (simp add: ascii_def)
  with ok_response_shape [OF st] run show ?thesis
    by auto
qed

text \<open>
  Claim C10. Whenever the match succeeds, the move returned is the matched text of the
  trimmed reply itself: the matched text holds no hyphen, so replacing the first hyphen by
  the empty string leaves it as it is.
\<close>

theorem hyphen_replacement_is_identity:
  assumes "match (trim reply) moveMatcher = Some m0"
  shows "0x2D \<notin> set m0 \<and> replace (ascii ''-'') [] m0 = m0 \<and> extract_move reply = Some m0
       \<and> answer (JStr reply) = Inr \<lparr>status = 200, sent = Json [(ascii ''move'', JStr m0)]\<rparr>"
proof -
  from assms have e: "extract_move reply = Some (replace (ascii ''-'') [] m0)"
    by (simp add: extract_move_def)
  from assms obtain i e where "regexp_exec moveMatcher (trim reply) 0 = Some (i, e)"
    and m0: "m0 = substring (trim reply) i e"
    by (auto simp: match_def split: option.splits)
  from regexp_exec_Some [OF this(1)] have "matcher moveMatcher (trim reply) i = Some e"
    by simp
  with m0 have "uci_move m0"
    by (simp add: matcher_uci)
  then have no: "0x2D \<notin> set m0"
    by (rule uci_move_no_hyphen)
  then have "replace [0x2D] [] m0 = m0"
    by (rule replace_absent)
  then have id: "replace (ascii ''-'') [] m0 = m0"
    by (simp add: ascii_def)
  with e have "extract_move reply = Some m0" by simp
  with no id show ?thesis
    by (simp add: answer_Some)
qed

theorem hyphen_replacement_is_identity_witness:
  "match (trim (ascii ''  I play E7E8q! '')) moveMatcher = Some (ascii ''E7E8q'')
   \<and> extract_move (ascii ''  I play E7E8q! '') = Some (ascii ''E7E8q'')
   \<and> answer (JStr (ascii ''  I play E7E8q! ''))
       = Inr \<lparr>status = 200, sent = Json [(ascii ''move'', JStr (ascii ''E7E8q''))]\<rparr>"
proof -
  have m: "match (trim (ascii ''  I play E7E8q! '')) moveMatcher = Some (ascii ''E7E8q'')"
    by code_simp
  from hyphen_replacement_is_identity [OF m] m show ?thesis
    by simp
qed

text \<open>
  Claim C2 says that a move written with a hyphen between its squares is extracted with
  the hyphen removed, and that the reply \<^verbatim>\<open>Sure -- e7-e8Q\<close> gives \<^verbatim>\<open>e7e8Q\<close>. The
  expression has no place for a hyphen: on that reply nothing matches, and the handler
  answers with \<^verbatim>\<open>move: null\<close> and the reply as \<^verbatim>\<open>raw\<close>. The dash of the reply is the
  code unit 0x2014.
\<close>

theorem hyphenated_move_is_not_extracted:
  "extract_move (ascii ''Sure '' @ [0x2014] @ ascii '' e7-e8Q'') = None
   \<and> answer (JStr (ascii ''Sure '' @ [0x2014] @ ascii '' e7-e8Q''))
       = Inr \<lparr>status = 200,
              sent = Json [(ascii ''move'', JNull),
                           (ascii ''raw'', JStr (ascii ''Sure '' @ [0x2014] @ ascii '' e7-e8Q''))]\<rparr>"
proof -
  have "extract_move (ascii ''Sure '' @ [0x2014] @ ascii '' e7-e8Q'') = None"
    by code_simp
  then show ?thesis
    by (simp add: answer_None)
qed

subsection \<open>The prompt\<close>

lemma hex_digit_unhex: "n < 16 \<Longrightarrow> unhex (hex_digit n) = Some n"
  by (auto simp: unhex_def hex_digit_def word_le_nat_alt word_less_nat_alt unat_word_ariths)

lemma nibbles: "code_unit_of (drop_bit 12 c) (take_bit 4 (drop_bit 8 c)) (take_bit 4 (drop_bit 4 c)) (take_bit 4 c) = c"
  unfolding code_unit_of_def
proof (rule bit_word_eqI)
  fix n :: nat
  consider "n < 4" | "4 \<le> n" "n < 8" | "8 \<le> n" "n < 12" | "12 \<le> n"
    by linarith
  then show "bit (push_bit 12 (drop_bit 12 c) OR push_bit 8 (take_bit 4 (drop_bit 8 c))
                  OR push_bit 4 (take_bit 4 (drop_bit 4 c)) OR take_bit 4 c) n = bit c n"
    by cases (auto simp: bit_simps dest: bit_imp_le_length)
qed

lemma nibble_bounds:
  "drop_bit 12 (c :: code_unit) < 16" "take_bit 4 (x :: code_unit) < 16"
proof -
  have "unat (drop_bit 12 c) < 2 ^ 4"
    using unsigned_less [of c, where 'a = nat] by (simp add: unat_drop_bit_eq drop_bit_eq_div [where 'a = nat])
  then show "drop_bit 12 c < 16"
    by (simp add: word_less_nat_alt)
  have "unat (take_bit 4 x) < 2 ^ 4"
    using take_bit_nat_less_exp [of 4 "unat x"] by (simp add: unsigned_take_bit_eq)
  then show "take_bit 4 x < 16"
    by (simp add: word_less_nat_alt)
qed

lemma read_unicode_escape:
  "read_string (unicode_escape c @ xs) = cons_to c (read_string xs)"
  by (simp add: unicode_escape_def hex_digit_unhex nibble_bounds nibbles)

lemma read_quote_unit:
  "read_string (quote_unit c @ xs) = cons_to c (read_string xs)"
  unfolding quote_unit_def
  by (auto simp: read_unicode_escape unescape_def simp del: read_string.simps)
     (simp_all add: unescape_def)

lemma read_raw:
  "c \<noteq> 0x22 \<Longrightarrow> c \<noteq> 0x5C \<Longrightarrow> \<not> c < 0x20 \<Longrightarrow> read_string (c # xs) = cons_to c (read_string xs)"
  by simp

lemma surrogate_is_raw:
  "is_lead c \<or> is_trail c \<Longrightarrow> c \<noteq> 0x22 \<and> c \<noteq> 0x5C \<and> \<not> c < 0x20"
  by (auto simp: is_lead_def is_trail_def word_le_nat_alt word_less_nat_alt)

lemma read_quote_units: "read_string (quote_units s @ 0x22 # rest) = Some (s, rest)"
proof (induction s rule: quote_units.induct)
  case 1
  show ?case by simp
next
  case (2 c)
  show ?case
    by (simp add: read_quote_unit cons_to_def del: read_string.simps) simp
next
  case (3 c d cs)
  show ?case
  proof (cases "is_lead c \<and> is_trail d")
    case True
    then have c: "c \<noteq> 0x22 \<and> c \<noteq> 0x5C \<and> \<not> c < 0x20" and d: "d \<noteq> 0x22 \<and> d \<noteq> 0x5C \<and> \<not> d < 0x20"
      by (simp_all add: surrogate_is_raw)
    have "read_string (c # d # quote_units cs @ 0x22 # rest)
          = cons_to c (cons_to d (read_string (quote_units cs @ 0x22 # rest)))"
      using c d by (simp add: read_raw del: read_string.simps)
    with True "3.IH"(1) show ?thesis
      by (simp add: cons_to_def del: read_string.simps)
  next
    case False
    then have "quote_units (c # d # cs) = quote_unit c @ quote_units (d # cs)"
      by auto
    with "3.IH"(2) [OF False] show ?thesis
      by (simp add: read_quote_unit cons_to_def del: read_string.simps quote_units.simps)
  qed
qed

lemma length_join_quote: "2 * length es \<le> length (join [0x2C] (map quote es))"
  by (induction es rule: induct_list012) (simp_all add: quote_def)

lemma read_items_join:
  "es \<noteq> [] \<Longrightarrow> length es \<le> n \<Longrightarrow>
     \<exists>r. join [0x2C] (map quote es) @ [0x5D] = 0x22 # r \<and> read_items n r = Some es"
proof (induction es arbitrary: n)
  case Nil
  then show ?case by simp
next
  case (Cons x rest)
  then obtain n' where n: "n = Suc n'" "length rest \<le> n'"
    by (cases n) auto
  show ?case
  proof (cases rest)
    case Nil
    have "read_items (Suc n') (quote_units x @ [0x22, 0x5D]) = Some [x]"
      using read_quote_units [of x "[0x5D]"] by simp
    with Nil n show ?thesis
      by (simp add: quote_def)
  next
    case (Cons y ys)
    with Cons.IH [of n'] n obtain r' where r': "join [0x2C] (map quote rest) @ [0x5D] = 0x22 # r'"
      and items: "read_items n' r' = Some rest"
      by auto
    have "read_items (Suc n') (quote_units x @ 0x22 # 0x2C # 0x22 # r') = Some (x # rest)"
      using read_quote_units [of x "0x2C # 0x22 # r'"] items by simp
    moreover have "join [0x2C] (map quote (x # rest)) @ [0x5D] = 0x22 # quote_units x @ 0x22 # 0x2C # 0x22 # r'"
      using Cons r' by (simp add: quote_def)
    ultimately show ?thesis
      using n by simp
  qed
qed

lemma JSON_parse_stringify: "JSON_parse_strings (JSON_stringify es) = Some es"
proof (cases "es = []")
  case True
  then show ?thesis
    by (simp add: JSON_stringify_def JSON_parse_strings_def)
next
  case False
  have "length es \<le> length (join [0x2C] (map quote es))"
    using length_join_quote [of es] by simp
  with read_items_join [OF False] obtain r where r: "join [0x2C] (map quote es) @ [0x5D] = 0x22 # r"
    and items: "read_items (length (join [0x2C] (map quote es))) r = Some es"
    by blast
  from r have "length r = length (join [0x2C] (map quote es))"
    by (metis length_Cons length_append_singleton old.nat.inject)
  with r items show ?thesis
    by (simp add: JSON_stringify_def JSON_parse_strings_def)
qed

lemma history_map_Moves:
  "history_map (Moves ms) = Inr (map (\<lambda>i. entry i (ms ! i)) [0..<length ms])"
proof -
  have "map (\<lambda>(i, m). entry i m) (enumerate 0 ms) = map (\<lambda>i. entry i (ms ! i)) [0..<length ms]"
    by (rule nth_equalityI) (simp_all add: nth_enumerate_eq)
  then show ?thesis
    by (simp add: history_map_def)
qed

lemma digit_value_digit: "n < 10 \<Longrightarrow> digit_value (digit n) = Some n"
proof -
  assume n: "n < 10"
  then have u: "unat (of_nat n :: code_unit) = n"
    by (simp add: unat_of_nat)
  have "unat (digit n) = 48 + n"
    using n u by (simp add: digit_def unat_word_ariths)
  then have "0x30 \<le> digit n \<and> digit n \<le> 0x39"
    using n by (simp add: word_le_nat_alt)
  moreover have "unat (digit n - 0x30) = n"
    using u by (simp add: digit_def)
  ultimately show ?thesis
    by (simp add: digit_value_def)
qed

lemma digit_value_Some: "digit_value c = Some v \<Longrightarrow> v < 10 \<and> c = digit v"
proof -
  assume a: "digit_value c = Some v"
  then have r: "0x30 \<le> c" "c \<le> 0x39" and v: "v = unat (c - 0x30)"
    by (auto simp: digit_value_def split: if_splits)
  from r have "unat (c - 0x30) = unat c - 48"
    by (simp add: unat_sub)
  moreover from r have "48 \<le> unat c" "unat c \<le> 57"
    by (simp_all add: word_le_nat_alt)
  ultimately have "v < 10" using v by simp
  moreover have "c = digit v"
    by (simp add: digit_def v)
  ultimately show ?thesis by simp
qed

lemma digit_zero: "n < 10 \<Longrightarrow> digit n = 0x30 \<longleftrightarrow> n = 0"
proof -
  assume n: "n < 10"
  from digit_value_digit [OF n] have "digit n = 0x30 \<Longrightarrow> n = 0"
    by (simp add: digit_value_def)
  then show ?thesis by (auto simp: digit_def)
qed

lemma read_digits_snoc:
  "read_digits acc (ds @ [c]) =
     (case read_digits acc ds of
        None \<Rightarrow> None
      | Some a \<Rightarrow> (case digit_value c of None \<Rightarrow> None | Some v \<Rightarrow> Some (10 * a + v)))"
  by (induction ds arbitrary: acc) (auto split: option.splits)

lemma decimal_small: "n < 10 \<Longrightarrow> decimal n = [digit n]"
  by (simp add: decimal.simps)

lemma decimal_large: "\<not> n < 10 \<Longrightarrow> decimal n = decimal (n div 10) @ [digit (n mod 10)]"
  by (subst decimal.simps) simp

lemma decimal_nonempty: "decimal n \<noteq> []"
  by (cases "n < 10") (simp_all add: decimal_small decimal_large)

lemma read_digits_decimal: "read_digits 0 (decimal n) = Some n"
proof (induction n rule: decimal.induct)
  case (1 n)
  show ?case
  proof (cases "n < 10")
    case True
    then show ?thesis by (simp add: decimal_small digit_value_digit)
  next
    case False
    with "1.IH" show ?thesis
      by (simp add: decimal_large read_digits_snoc digit_value_digit)
  qed
qed

lemma hd_decimal: "0 < n \<Longrightarrow> hd (decimal n) \<noteq> 0x30"
proof (induction n rule: decimal.induct)
  case (1 n)
  show ?case
  proof (cases "n < 10")
    case True
    with "1.prems" show ?thesis by (simp add: decimal_small digit_zero)
  next
    case False
    then have "0 < n div 10" by simp
    with "1.IH" [OF False] have "hd (decimal (n div 10)) \<noteq> 0x30" by simp
    with False show ?thesis
      by (simp add: decimal_large decimal_nonempty)
  qed
qed

lemma read_decimal_decimal: "read_decimal (decimal n) = Some n"
proof (cases "decimal n")
  case Nil
  with decimal_nonempty show ?thesis by simp
next
  case (Cons c cs)
  have "\<not> (c = 0x30 \<and> cs \<noteq> [])"
  proof
    assume a: "c = 0x30 \<and> cs \<noteq> []"
    with Cons have "hd (decimal n) = 0x30" by simp
    with hd_decimal [of n] have "n = 0" by auto
    with Cons a show False by (simp add: decimal_small)
  qed
  with Cons read_digits_decimal [of n] show ?thesis
    by (simp add: read_decimal_def)
qed

lemma read_decimal_unique: "read_decimal d = Some n \<Longrightarrow> d = decimal n"
proof (induction d arbitrary: n rule: rev_induct)
  case Nil
  then show ?case by (simp add: read_decimal_def)
next
  case (snoc c ds)
  from snoc.prems have rd: "read_digits 0 (ds @ [c]) = Some n"
    and lead: "ds \<noteq> [] \<Longrightarrow> hd ds \<noteq> 0x30"
    by (cases ds; auto simp: read_decimal_def split: if_splits)+
  from rd obtain a v where a: "read_digits 0 ds = Some a" and v: "digit_value c = Some v"
    and n: "n = 10 * a + v"
    by (auto simp: read_digits_snoc split: option.splits)
  from digit_value_Some [OF v] have v10: "v < 10" and c: "c = digit v" by simp_all
  show ?case
  proof (cases "ds = []")
    case True
    with a n v10 c show ?thesis by (simp add: decimal_small)
  next
    case False
    with lead have h: "hd ds \<noteq> 0x30" by simp
    with False a have "read_decimal ds = Some a"
      by (cases ds) (auto simp: read_decimal_def)
    then have ds: "ds = decimal a" by (rule snoc.IH)
    have "a \<noteq> 0"
    proof
      assume "a = 0"
      with ds h show False by (simp add: decimal_small digit_def)
    qed
    with n v10 have "\<not> n < 10" "n div 10 = a" "n mod 10 = v" by simp_all
    with ds c show ?thesis by (simp add: decimal_large)
  qed
qed

text \<open>
  Claim C7. For a history that is an array of \<^verbatim>\<open>{from, to}\<close> pairs, the user
  instruction is the fixed text around the JSON array of the entries: there are as many
  entries as plies, entry \<open>i\<close> is the decimal numeral of \<open>i + 1\<close> followed by
  \<^verbatim>\<open>. <from>-<to>\<close>, in the order of the history, and reading the array back gives
  exactly these entries. The empty history gives the empty array \<^verbatim>\<open>[]\<close>.
\<close>

theorem history_is_enumerated:
  "\<exists>es. user (Moves ms) = Inr (ascii ''FEN: Move history: '' @ JSON_stringify es @ [0x0A]
                               @ ascii ''Respond with one UCI move only.'')
       \<and> JSON_parse_strings (JSON_stringify es) = Some es
       \<and> length es = length ms
       \<and> (\<forall>i<length ms. \<exists>d. read_decimal d = Some (i + 1)
              \<and> es ! i = d @ ascii ''. '' @ from_sq (ms ! i) @ ascii ''-'' @ to_sq (ms ! i))"
proof -
  let ?es = "map (\<lambda>i. entry i (ms ! i)) [0..<length ms]"
  have "\<exists>d. read_decimal d = Some (i + 1)
          \<and> ?es ! i = d @ ascii ''. '' @ from_sq (ms ! i) @ ascii ''-'' @ to_sq (ms ! i)"
    if "i < length ms" for i
    using that by (intro exI [of _ "decimal (i + 1)"]) (simp add: read_decimal_decimal entry_def)
  then show ?thesis
    by (intro exI [of _ ?es]) (simp add: user_def history_map_Moves JSON_parse_stringify)
qed

theorem history_is_enumerated_witness:
  "user (Moves two_plies)
     = Inr (ascii ''FEN: Move history: ['' @ [0x22] @ ascii ''1. e2-e4'' @ [0x22, 0x2C, 0x22] @ ascii ''2. e7-e5''
            @ [0x22] @ ascii '']'' @ [0x0A] @ ascii ''Respond with one UCI move only.'')
   \<and> user (Moves []) = Inr (ascii ''FEN: Move history: []'' @ [0x0A] @ ascii ''Respond with one UCI move only.'')"
proof -
  from history_is_enumerated [of two_plies] obtain es where
    u: "user (Moves two_plies) = Inr (ascii ''FEN: Move history: '' @ JSON_stringify es @ [0x0A]
                               @ ascii ''Respond with one UCI move only.'')"
    and len: "length es = length two_plies"
    and nth: "\<forall>i<length two_plies. \<exists>d. read_decimal d = Some (i + 1)
                \<and> es ! i = d @ ascii ''. '' @ from_sq (two_plies ! i) @ ascii ''-'' @ to_sq (two_plies ! i)"
    by blast
  from len obtain a b where es: "es = [a, b]"
    by (cases es; cases "tl es") (auto simp: two_plies_def)
  from nth have "\<exists>d. read_decimal d = Some (0 + 1) \<and> es ! 0 = d @ ascii ''. '' @ from_sq (two_plies ! 0) @ ascii ''-'' @ to_sq (two_plies ! 0)"
    by (intro nth [rule_format]) (simp add: two_plies_def)
  then have e0: "es ! 0 = ascii ''1. e2-e4''"
    by (auto dest!: read_decimal_unique simp: two_plies_def decimal_small digit_def ascii_def)
  from nth have "\<exists>d. read_decimal d = Some (1 + 1) \<and> es ! 1 = d @ ascii ''. '' @ from_sq (two_plies ! 1) @ ascii ''-'' @ to_sq (two_plies ! 1)"
    by (intro nth [rule_format]) (simp add: two_plies_def)
  then have e1: "es ! 1 = ascii ''2. e7-e5''"
    by (auto dest!: read_decimal_unique simp: two_plies_def decimal_small digit_def ascii_def)
  from es e0 e1 have "es = [ascii ''1. e2-e4'', ascii ''2. e7-e5'']"
    by simp
  moreover have "JSON_stringify [ascii ''1. e2-e4'', ascii ''2. e7-e5'']
      = ascii ''['' @ [0x22] @ ascii ''1. e2-e4'' @ [0x22, 0x2C, 0x22] @ ascii ''2. e7-e5'' @ [0x22] @ ascii '']''"
    by code_simp
  moreover from history_is_enumerated [of "[]"] obtain es0 where
    "user (Moves []) = Inr (ascii ''FEN: Move history: '' @ JSON_stringify es0 @ [0x0A]
                               @ ascii ''Respond with one UCI move only.'')"
    and "length es0 = 0"
    by auto
  ultimately show ?thesis
    using u by (simp add: JSON_stringify_def ascii_def)
qed

text \<open>
  Claim C1 says that the user instruction embeds the position. The template of the
  source writes the label \<^verbatim>\<open>FEN:\<close> and no value after it: for the example request the
  one call made carries the user instruction below, in which the position does not occur.
\<close>

theorem fen_is_not_in_the_prompt:
  "snd (ai_move no_config (replying (chat_completion (JStr (ascii ''e2e4'')))) example_request)
     = [body no_config example_user]
   \<and> messages (body no_config example_user) = [(ascii ''system'', system), (ascii ''user'', example_user)]
   \<and> fen example_request = JStr (ascii ''8/8/8/8/8/8/8/K6k w - - 0 1'')
   \<and> \<not> sublist (ascii ''8/8/8/8/8/8/8/K6k w - - 0 1'') example_user"
proof -
  have "0x2F \<in> set (ascii ''8/8/8/8/8/8/8/K6k w - - 0 1'')"
    by (simp add: ascii_def)
  moreover have "0x2F \<notin> set example_user"
    by (simp add: example_user_def ascii_def)
  ultimately have "\<not> sublist (ascii ''8/8/8/8/8/8/8/K6k w - - 0 1'') example_user"
    by (meson set_mono_sublist subsetD)
  moreover have "snd (ai_move no_config (replying (chat_completion (JStr (ascii ''e2e4'')))) example_request)
     = [body no_config example_user]"
    using example_request_truthy example_request_user by (simp add: ai_move_def)
  ultimately show ?thesis
    by (simp add: body_def example_request_def)
qed

end
